theory Spec2Isabelle
  imports Complex_Main "HOL-Library.Sublist" "HOL-Library.Multiset"
begin

section \<open>Characters and the string methods the cleaners call\<close>

text \<open>
  Python strings are modelled as \<open>string\<close> (lists of 8-bit characters). The character
  classes below are the ASCII ones; the model follows Python on ASCII text and treats every
  other character as an uncased non-letter, non-digit, non-space character.
\<close>

definition upper_letters :: string where
  "upper_letters = ''ABCDEFGHIJKLMNOPQRSTUVWXYZ''"

definition lower_letters :: string where
  "lower_letters = ''abcdefghijklmnopqrstuvwxyz''"

definition digits :: string where
  "digits = ''0123456789''"

definition is_upper :: "char \<Rightarrow> bool" where
  "is_upper c = (c \<in> set upper_letters)"

definition is_lower :: "char \<Rightarrow> bool" where
  "is_lower c = (c \<in> set lower_letters)"

definition is_alpha :: "char \<Rightarrow> bool" where
  "is_alpha c = (is_upper c \<or> is_lower c)"

definition is_digit :: "char \<Rightarrow> bool" where
  "is_digit c = (c \<in> set digits)"

definition is_space :: "char \<Rightarrow> bool" where
  \<comment> \<open>\<open>str.isspace\<close> on ASCII: tab, LF, VT, FF, CR, FS, GS, RS, US and the blank\<close>
  "is_space c =
     (c \<in> set [CHR 0x09, CHR 0x0A, CHR 0x0B, CHR 0x0C, CHR 0x0D,
                CHR 0x1C, CHR 0x1D, CHR 0x1E, CHR 0x1F, CHR '' ''])"

definition to_lower :: "char \<Rightarrow> char" where
  "to_lower c = (case map_of (zip upper_letters lower_letters) c of None \<Rightarrow> c | Some d \<Rightarrow> d)"

definition to_upper :: "char \<Rightarrow> char" where
  "to_upper c = (case map_of (zip lower_letters upper_letters) c of None \<Rightarrow> c | Some d \<Rightarrow> d)"

definition lower :: "string \<Rightarrow> string" where
  \<comment> \<open>\<open>str.lower()\<close>\<close>
  "lower s = map to_lower s"

definition strip :: "string \<Rightarrow> string" where
  \<comment> \<open>\<open>str.strip()\<close>: white space removed at both ends\<close>
  "strip s = rev (dropWhile is_space (rev (dropWhile is_space s)))"

fun title_from :: "bool \<Rightarrow> string \<Rightarrow> string" where
  \<comment> \<open>the loop of \<open>str.title()\<close>; the flag is \<open>previous_is_cased\<close>\<close>
  "title_from prev [] = []"
| "title_from prev (c # cs) =
     (if is_lower c then (if prev then c else to_upper c) # title_from True cs
      else if is_upper c then (if prev then to_lower c else c) # title_from True cs
      else c # title_from False cs)"

definition title :: "string \<Rightarrow> string" where
  \<comment> \<open>\<open>str.title()\<close>\<close>
  "title s = title_from False s"

section \<open>Regular expressions, as the \<open>re\<close> module decides a match\<close>

text \<open>
  \<open>re.match\<close> is used only for its truth value, on patterns whose match must reach the end
  of the text, so what it decides is membership in the language of the pattern. The matcher
  works by derivatives and is executable.
\<close>

datatype rexp =
    Zero
  | One
  | Atom "char \<Rightarrow> bool"
  | Alt rexp rexp
  | Seq rexp rexp
  | Star rexp

fun nullable :: "rexp \<Rightarrow> bool" where
  "nullable Zero = False"
| "nullable One = True"
| "nullable (Atom p) = False"
| "nullable (Alt r s) = (nullable r \<or> nullable s)"
| "nullable (Seq r s) = (nullable r \<and> nullable s)"
| "nullable (Star r) = True"

fun deriv :: "char \<Rightarrow> rexp \<Rightarrow> rexp" where
  "deriv c Zero = Zero"
| "deriv c One = Zero"
| "deriv c (Atom p) = (if p c then One else Zero)"
| "deriv c (Alt r s) = Alt (deriv c r) (deriv c s)"
| "deriv c (Seq r s) =
     (if nullable r then Alt (Seq (deriv c r) s) (deriv c s) else Seq (deriv c r) s)"
| "deriv c (Star r) = Seq (deriv c r) (Star r)"

fun matches :: "rexp \<Rightarrow> string \<Rightarrow> bool" where
  "matches r [] = nullable r"
| "matches r (c # cs) = matches (deriv c r) cs"

definition Chr :: "char \<Rightarrow> rexp" where
  "Chr c = Atom (\<lambda>x. x = c)"

definition Plus :: "rexp \<Rightarrow> rexp" where
  \<comment> \<open>\<open>r+\<close>\<close>
  "Plus r = Seq r (Star r)"

definition Two_or_more :: "rexp \<Rightarrow> rexp" where
  \<comment> \<open>\<open>r{2,}\<close>\<close>
  "Two_or_more r = Seq r (Seq r (Star r))"

definition Opt :: "rexp \<Rightarrow> rexp" where
  "Opt r = Alt One r"

definition Dollar :: rexp where
  \<comment> \<open>\<open>$\<close> without \<open>re.MULTILINE\<close>: the end of the text, or just before a newline that
      ends the text\<close>
  "Dollar = Opt (Chr (CHR 0x0A))"

section \<open>Validators\<close>

definition local_char :: "char \<Rightarrow> bool" where
  \<comment> \<open>\<open>[a-zA-Z0-9._%+-]\<close>\<close>
  "local_char c = (is_alpha c \<or> is_digit c \<or> c \<in> set ''._%+-'')"

definition domain_char :: "char \<Rightarrow> bool" where
  \<comment> \<open>\<open>[a-zA-Z0-9.-]\<close>\<close>
  "domain_char c = (is_alpha c \<or> is_digit c \<or> c \<in> set ''.-'')"

definition email_pattern :: rexp where
  \<comment> \<open>\<open>^[a-zA-Z0-9._%+-]+@[a-zA-Z0-9.-]+\.[a-zA-Z]{2,}$\<close>\<close>
  "email_pattern =
     Seq (Plus (Atom local_char))
       (Seq (Chr CHR ''@'')
         (Seq (Plus (Atom domain_char))
           (Seq (Chr CHR ''.'')
             (Seq (Two_or_more (Atom is_alpha)) Dollar))))"

definition validate_email :: "string option \<Rightarrow> bool" where
  \<comment> \<open>\<open>None\<close> is a missing cell (\<open>pd.isna\<close>)\<close>
  "validate_email email =
     (case email of
        None \<Rightarrow> False
      | Some s \<Rightarrow> if s = [] then False else matches email_pattern s)"


subsection \<open>\<open>datetime.strptime(text, '%Y-%m-%d')\<close>\<close>

text \<open>
  \<open>_strptime\<close> turns the format into a regular expression, matches it at the start of the
  text and raises \<open>ValueError\<close> unless the match covers the whole text; the directives are
  \<open>%Y\<close> = \<open>\d\d\d\d\<close>, \<open>%m\<close> = \<open>1[0-2]|0[1-9]|[1-9]\<close> and
  \<open>%d\<close> = \<open>3[0-1]|[1-2]\d|0[1-9]|[1-9]| [1-9]\<close>. No alternative of \<open>%d\<close> matches a
  proper prefix of a text that a later alternative matches, so the first match covers the
  text exactly when the text is in the language of the expression. The fields are then
  read with \<open>int\<close>, and building the \<open>date\<close> raises \<open>ValueError\<close> for year 0 and for a day
  the month does not have. \<open>None\<close> stands for the \<open>ValueError\<close>.
\<close>

datatype date = Date (year: nat) (month: nat) (day: nat)

definition nonzero_digit :: "char \<Rightarrow> bool" where
  \<comment> \<open>\<open>[1-9]\<close>\<close>
  "nonzero_digit c = (c \<in> set ''123456789'')"

definition year_pattern :: rexp where
  "year_pattern = Seq (Atom is_digit) (Seq (Atom is_digit) (Seq (Atom is_digit) (Atom is_digit)))"

definition month_pattern :: rexp where
  "month_pattern =
     Alt (Seq (Chr CHR ''1'') (Atom (\<lambda>c. c \<in> set ''012'')))
       (Alt (Seq (Chr CHR ''0'') (Atom nonzero_digit))
         (Atom nonzero_digit))"

definition day_pattern :: rexp where
  "day_pattern =
     Alt (Seq (Chr CHR ''3'') (Atom (\<lambda>c. c \<in> set ''01'')))
       (Alt (Seq (Atom (\<lambda>c. c \<in> set ''12'')) (Atom is_digit))
         (Alt (Seq (Chr CHR ''0'') (Atom nonzero_digit))
           (Alt (Atom nonzero_digit)
             (Seq (Chr CHR '' '') (Atom nonzero_digit)))))"

definition date_pattern :: rexp where
  "date_pattern =
     Seq year_pattern (Seq (Chr CHR ''-'') (Seq month_pattern (Seq (Chr CHR ''-'') day_pattern)))"

definition digit_val :: "char \<Rightarrow> nat" where
  "digit_val c = (case map_of (zip digits [0, 1, 2, 3, 4, 5, 6, 7, 8, 9]) c of None \<Rightarrow> 0 | Some n \<Rightarrow> n)"

definition int_of_text :: "string \<Rightarrow> nat" where
  \<comment> \<open>\<open>int(text)\<close> on text made of decimal digits, white space around them ignored\<close>
  "int_of_text s = foldl (\<lambda>n c. 10 * n + digit_val c) 0 (strip s)"

definition is_leap :: "nat \<Rightarrow> bool" where
  "is_leap y = (y mod 4 = 0 \<and> (y mod 100 \<noteq> 0 \<or> y mod 400 = 0))"

definition days_in_month :: "nat \<Rightarrow> nat \<Rightarrow> nat" where
  "days_in_month y m =
     (if m = 2 then (if is_leap y then 29 else 28)
      else if m = 4 \<or> m = 6 \<or> m = 9 \<or> m = 11 then 30 else 31)"

definition strptime_ymd :: "string \<Rightarrow> date option" where
  "strptime_ymd s =
     (if matches date_pattern s then
        (let y = int_of_text (take 4 s);
             rest = drop 5 s;
             m = int_of_text (takeWhile (\<lambda>c. c \<noteq> CHR ''-'') rest);
             d = int_of_text (drop 1 (dropWhile (\<lambda>c. c \<noteq> CHR ''-'') rest))
         in if 1 \<le> y \<and> d \<le> days_in_month y m then Some (Date y m d) else None)
      else None)"

definition validate_date :: "string option \<Rightarrow> bool" where
  "validate_date date_str =
     (case date_str of
        None \<Rightarrow> False
      | Some s \<Rightarrow>
          if s = [] then False
          else (case strptime_ymd s of Some d \<Rightarrow> True | None \<Rightarrow> False))"

section \<open>Tables\<close>

text \<open>
  A data frame is the list of its rows, in row order. A cell that the source tests with
  \<open>pd.isna\<close>, fills with \<open>fillna\<close> or coerces is an \<open>option\<close>, \<open>None\<close> being the missing
  value (\<open>NaN\<close>, \<open>NaT\<close>). The type parameter of a customer or transaction row is the type of
  its date cell: text as read from the file, a timestamp after \<open>pd.to_datetime\<close>. The price
  cell holds the number \<open>pd.to_numeric(errors='coerce')\<close> reads in it, \<open>None\<close> when the cell
  is missing or is not a number. Amounts and prices are exact numbers. The columns
  \<open>customer_id\<close> and \<open>product_id\<close> of a transaction are the fields \<open>txn_customer_id\<close> and
  \<open>txn_product_id\<close>, the plain names being those of the customer and product rows.
\<close>

record 'd customer =
  customer_id :: int
  first_name :: "string option"
  last_name :: "string option"
  email :: "string option"
  registration_date :: 'd

record 'd transaction =
  transaction_id :: int
  txn_customer_id :: int
  txn_product_id :: int
  transaction_date :: 'd
  quantity :: int
  amount :: real

record product =
  product_id :: int
  product_name :: "string option"
  category :: "string option"
  price :: "real option"

definition fillna :: "'a \<Rightarrow> 'a option \<Rightarrow> 'a option" where
  "fillna v cell = (case cell of None \<Rightarrow> Some v | Some x \<Rightarrow> Some x)"



section \<open>Errors\<close>

text \<open>
  An exception the source raises is a value of the type \<open>error\<close>; an operation that may
  raise returns \<open>Inl\<close> of it.
\<close>

datatype error = KeyError | DateParseError | ValueError | IntegrityError | OperationalError

section \<open>Cleaners\<close>








definition category_mapping :: "(string \<times> string) list" where
  "category_mapping =
     [(''electronics'', ''Electronics''),
      (''ELECTRONICS'', ''Electronics''),
      (''sports'', ''Sports''),
      (''SPORTS'', ''Sports''),
      (''office supplies'', ''Office Supplies''),
      (''OFFICE SUPPLIES'', ''Office Supplies''),
      (''office_supplies'', ''Office Supplies'')]"

definition standardize_category :: "string option \<Rightarrow> string" where
  "standardize_category cell =
     (case cell of
        None \<Rightarrow> ''Unknown''
      | Some c \<Rightarrow>
          (let stripped = strip c
           in case map_of category_mapping (lower stripped) of
                Some v \<Rightarrow> v
              | None \<Rightarrow> title stripped))"

definition clean_products_data :: "product list \<Rightarrow> product list" where
  "clean_products_data df =
     (let cleaned1 = map (\<lambda>r. r\<lparr>category := Some (standardize_category (category r))\<rparr>) df;
          cleaned2 = map (\<lambda>r. r\<lparr>product_name := fillna ''Unknown Product'' (product_name r)\<rparr>) cleaned1
      in filter (\<lambda>r. case price r of None \<Rightarrow> False | Some p \<Rightarrow> p > 0) cleaned2)"

section \<open>Integrity checker\<close>

record integrity_report =
  orphaned_customer_transactions :: nat
  orphaned_product_transactions :: nat
  valid_transactions :: nat
  total_transactions :: nat

definition validate_data_integrity ::
  "'c customer list \<Rightarrow> 'd transaction list \<Rightarrow> product list
     \<Rightarrow> 'd transaction list \<times> integrity_report"
where
  "validate_data_integrity customers_df transactions_df products_df =
     (let valid_customer_ids = set (map customer_id customers_df);
          orphaned_customers =
            filter (\<lambda>t. txn_customer_id t \<notin> valid_customer_ids) transactions_df;
          valid_product_ids = set (map product_id products_df);
          orphaned_products =
            filter (\<lambda>t. txn_product_id t \<notin> valid_product_ids) transactions_df;
          valid =
            filter (\<lambda>t. txn_customer_id t \<in> valid_customer_ids
                       \<and> txn_product_id t \<in> valid_product_ids) transactions_df
      in (valid,
          \<lparr>orphaned_customer_transactions = length orphaned_customers,
           orphaned_product_transactions = length orphaned_products,
           valid_transactions = length valid,
           total_transactions = length transactions_df\<rparr>))"

section \<open>The store\<close>

text \<open>
  The SQLite file is modelled by its four tables. A table that does not exist is \<open>None\<close>.
  A table of customers, products or transactions is the list of its rows together with the
  mark \<open>declared\<close>: true when the table was made by the \<open>CREATE TABLE\<close> statements of
  \<open>create_schema\<close> and so carries their constraints, false when pandas made it from a data
  frame, with columns and no constraint. \<open>customer_revenue\<close> is only ever made by
  \<open>create_schema\<close>; its \<open>INTEGER PRIMARY KEY\<close> is the row id, so the table is a map from
  customer id to total and count. The connection is open throughout \<open>load_data\<close> and is
  left out, as are the indexes. \<open>sqlite3.connect\<close> leaves foreign keys unenforced, so no
  foreign key is among the constraints a write is checked against.

  An amount is the number its cell holds; a cell that holds no number (\<open>NaN\<close>, an
  infinity) is outside the model. What SQLite's \<open>SUM\<close> makes of the amounts of a
  group depends on the column (64-bit integers, where it raises on overflow, or doubles,
  where it rounds) and on the order in which it visits the rows, so both are parameters of
  the aggregation: \<open>scan rows c\<close> is the rows of customer \<open>c\<close> in the order of the visit, and
  \<open>sql_sum\<close> is \<open>SUM\<close> on the amounts so visited, \<open>None\<close> when it raises. The report sums
  the totals of \<open>customer_revenue\<close>, which SQLite visits in the order of the key:
  \<open>report_sum\<close> is that \<open>SUM\<close>, a function of the relation.
\<close>

datatype if_exists = Fail | Replace | Append

record 'r table =
  declared :: bool
  table_rows :: "'r list"

record 'd database =
  customers :: "'d customer table option"
  products :: "product table option"
  transactions :: "'d transaction table option"
  customer_revenue :: "(int \<rightharpoonup> real \<times> nat) option"

definition customers_constraints :: "'t option customer list \<Rightarrow> bool" where
  \<comment> \<open>\<open>customer_id INTEGER PRIMARY KEY\<close>, \<open>email TEXT UNIQUE NOT NULL\<close>, the other columns
      \<open>NOT NULL\<close>\<close>
  "customers_constraints rows =
     (distinct (map customer_id rows) \<and> distinct (map email rows)
      \<and> list_all (\<lambda>r. first_name r \<noteq> None \<and> last_name r \<noteq> None \<and> email r \<noteq> None
                       \<and> registration_date r \<noteq> None) rows)"



definition to_sql ::
  "('r list \<Rightarrow> bool) \<Rightarrow> 'r list \<Rightarrow> if_exists \<Rightarrow> 'r table option \<Rightarrow> error + 'r table option"
where
  \<comment> \<open>\<open>DataFrame.to_sql(name, con, if_exists=..., index=False)\<close>: \<open>replace\<close> drops the table
      and makes a new one from the frame; \<open>append\<close> inserts into the table as it is\<close>
  "to_sql constraints df mode tbl =
     (case tbl of
        None \<Rightarrow> Inr (Some \<lparr>declared = False, table_rows = df\<rparr>)
      | Some t \<Rightarrow>
          (case mode of
             Fail \<Rightarrow> Inl ValueError
           | Replace \<Rightarrow> Inr (Some \<lparr>declared = False, table_rows = df\<rparr>)
           | Append \<Rightarrow>
               if declared t \<and> \<not> constraints (table_rows t @ df) then Inl IntegrityError
               else Inr (Some (t\<lparr>table_rows := table_rows t @ df\<rparr>))))"

definition create_table_if_not_exists :: "'r table option \<Rightarrow> 'r table option" where
  "create_table_if_not_exists tbl =
     (case tbl of None \<Rightarrow> Some \<lparr>declared = True, table_rows = []\<rparr> | Some t \<Rightarrow> Some t)"

definition create_schema :: "'d database \<Rightarrow> 'd database" where
  "create_schema db =
     db\<lparr>customers := create_table_if_not_exists (customers db),
        products := create_table_if_not_exists (products db),
        transactions := create_table_if_not_exists (transactions db),
        customer_revenue :=
          (case customer_revenue db of None \<Rightarrow> Some Map.empty | Some old \<Rightarrow> Some old)\<rparr>"

definition load_customers ::
  "'t option database \<Rightarrow> 't option customer list \<Rightarrow> error + 't option database" where
  "load_customers db customers_df =
     (case to_sql customers_constraints customers_df Replace (customers db) of
        Inl e \<Rightarrow> Inl e
      | Inr tbl \<Rightarrow> Inr (db\<lparr>customers := tbl\<rparr>))"







section \<open>The pipeline\<close>





definition no_database :: "'d database" where
  \<comment> \<open>the store before the first run: the file holds no table\<close>
  "no_database = \<lparr>customers = None, products = None, transactions = None,
                  customer_revenue = None\<rparr>"

section \<open>Reading the store, and library functions for concrete tables\<close>




text \<open>
  Where a concrete table is evaluated, the library functions are these. The date readers
  read a text of ten characters \<open>YYYY-MM-DD\<close> with a year from 1678 to 2261, which pandas
  reads as that day. On every other text they give \<open>NaT\<close> or raise; the only such text in
  a concrete table below is \<open>not a date\<close>, which pandas does not read either, and nothing
  is said of pandas on other layouts. \<open>sum_exact\<close> is \<open>SUM\<close> where no addition rounds or
  overflows, as on a handful of small whole amounts, and \<open>table_order\<close> visits the rows of
  a group in table order.
\<close>

definition iso_day :: "string \<Rightarrow> date option" where
  "iso_day s =
     (case strptime_ymd s of
        None \<Rightarrow> None
      | Some d \<Rightarrow> if length s = 10 \<and> 1678 \<le> year d \<and> year d \<le> 2261 then Some d else None)"

definition to_datetime_coerce_iso :: "string option list \<Rightarrow> string option \<Rightarrow> date option" where
  "to_datetime_coerce_iso column cell = (case cell of None \<Rightarrow> None | Some s \<Rightarrow> iso_day s)"

definition to_datetime_iso :: "string option list \<Rightarrow> string option \<Rightarrow> error + date option" where
  "to_datetime_iso column cell =
     (case cell of
        None \<Rightarrow> Inr None
      | Some s \<Rightarrow> (case iso_day s of None \<Rightarrow> Inl DateParseError | Some d \<Rightarrow> Inr (Some d)))"



section \<open>What a cleaned row owes to the row it comes from\<close>





section \<open>The language of a pattern, and the shape of an address\<close>

text \<open>
  The words a pattern denotes, to state what the matcher decides, and the shape
  \<open>local@domain.tld\<close> in the words of the specification.
\<close>

inductive_set star :: "string set \<Rightarrow> string set" for A :: "string set" where
  star_empty: "[] \<in> star A"
| star_more: "u \<in> A \<Longrightarrow> v \<in> star A \<Longrightarrow> u @ v \<in> star A"

fun lang :: "rexp \<Rightarrow> string set" where
  "lang Zero = {}"
| "lang One = {[]}"
| "lang (Atom p) = {[c] | c. p c}"
| "lang (Alt r s) = lang r \<union> lang s"
| "lang (Seq r s) = {u @ v | u v. u \<in> lang r \<and> v \<in> lang s}"
| "lang (Star r) = star (lang r)"


definition address_shape :: "string \<Rightarrow> bool" where
  "address_shape s =
     (\<exists>local_part domain tld.
        s = local_part @ ''@'' @ domain @ ''.'' @ tld
        \<and> local_part \<noteq> [] \<and> list_all local_char local_part
        \<and> domain \<noteq> [] \<and> list_all domain_char domain
        \<and> 2 \<le> length tld \<and> list_all is_alpha tld)"


section \<open>The texts of a date\<close>

text \<open>
  \<open>iso_date_text\<close> is the form \<open>YYYY-MM-DD\<close> in the words of the specification: a four-digit
  year, a two-digit month 01 to 12 and a two-digit day that the month of that year has.
  \<open>strptime_date_text\<close> is the wider form with a year from 0001 on, a month of one or two
  digits and a day of one or two digits or of a blank and a digit.
\<close>

definition number :: "string \<Rightarrow> nat" where
  "number s = foldl (\<lambda>n c. 10 * n + digit_val c) 0 s"

definition month_field :: "string \<Rightarrow> bool" where
  "month_field m =
     (list_all is_digit m \<and> (length m = 1 \<or> length m = 2) \<and> 1 \<le> number m \<and> number m \<le> 12)"

definition day_field :: "string \<Rightarrow> bool" where
  "day_field d =
     ((list_all is_digit d \<and> (length d = 1 \<or> length d = 2) \<and> 1 \<le> number d \<and> number d \<le> 31)
      \<or> (\<exists>c. d = [CHR '' '', c] \<and> nonzero_digit c))"


definition strptime_date_text :: "string \<Rightarrow> bool" where
  "strptime_date_text s =
     (\<exists>y m d. s = y @ ''-'' @ m @ ''-'' @ d
        \<and> length y = 4 \<and> list_all is_digit y \<and> 1 \<le> number y
        \<and> month_field m \<and> day_field d
        \<and> int_of_text d \<le> days_in_month (number y) (number m))"

definition iso_date_text :: "string \<Rightarrow> bool" where
  "iso_date_text s =
     (\<exists>y m d. s = y @ ''-'' @ m @ ''-'' @ d
        \<and> length y = 4 \<and> length m = 2 \<and> length d = 2
        \<and> list_all is_digit y \<and> list_all is_digit m \<and> list_all is_digit d
        \<and> 1 \<le> number m \<and> number m \<le> 12
        \<and> 1 \<le> number d \<and> number d \<le> days_in_month (number y) (number m))"


section \<open>Properties\<close>

subsection \<open>Rows that come from the input\<close>














lemmas char_defs =
  upper_letters_def lower_letters_def digits_def is_upper_def is_lower_def is_alpha_def
  is_digit_def is_space_def to_lower_def to_upper_def nonzero_digit_def

lemmas regex_defs = Chr_def Plus_def Two_or_more_def Opt_def Dollar_def local_char_def domain_char_def
  email_pattern_def date_pattern_def year_pattern_def month_pattern_def day_pattern_def

lemmas validator_defs = validate_email_def validate_date_def strptime_ymd_def int_of_text_def
  strip_def digit_val_def days_in_month_def is_leap_def Let_def iso_day_def
  to_datetime_coerce_iso_def to_datetime_iso_def


lemma integrity_valid_rows:
  "fst (validate_data_integrity customers_df transactions_df products_df) =
     filter (\<lambda>t. txn_customer_id t \<in> set (map customer_id customers_df)
                \<and> txn_product_id t \<in> set (map product_id products_df)) transactions_df"
  by (simp add: validate_data_integrity_def Let_def)


text \<open>
  C2. A transaction row survives the integrity checker exactly when it is a row of the
  transactions table whose customer id occurs in the customer_id column of the customers
  table and whose product id occurs in the product_id column of the products table; so
  every surviving row has both references, and every row lacking one is removed.
\<close>

theorem integrity_referential_closure:
  "t \<in> set (fst (validate_data_integrity customers_df transactions_df products_df)) \<longleftrightarrow>
     t \<in> set transactions_df
     \<and> txn_customer_id t \<in> set (map customer_id customers_df)
     \<and> txn_product_id t \<in> set (map product_id products_df)"
  by (simp only: integrity_valid_rows set_filter mem_Collect_eq)




subsection \<open>Category normalization\<close>

lemma to_lower_not_upper: "\<not> is_upper (to_lower c)"
proof (cases "is_upper c")
  case True
  then show ?thesis
    by (auto simp: is_upper_def to_lower_def upper_letters_def lower_letters_def)
next
  case False
  then have "map_of (zip upper_letters lower_letters) c = None"
    by (simp add: is_upper_def upper_letters_def lower_letters_def)
  with False show ?thesis by (simp add: to_lower_def)
qed

lemma lower_no_upper: "lower s = t \<Longrightarrow> c \<in> set t \<Longrightarrow> \<not> is_upper c"
  using to_lower_not_upper by (auto simp: lower_def)

text \<open>The upper-case keys of the lookup table are never found: the key looked up is lower case.\<close>

lemma lower_not_shouting:
  "lower s \<noteq> ''ELECTRONICS''" "lower s \<noteq> ''SPORTS''" "lower s \<noteq> ''OFFICE SUPPLIES''"
  using lower_no_upper [of s "''ELECTRONICS''" "CHR ''E''"]
        lower_no_upper [of s "''SPORTS''" "CHR ''S''"]
        lower_no_upper [of s "''OFFICE SUPPLIES''" "CHR ''O''"]
  by (auto simp: is_upper_def upper_letters_def)

lemma standardize_category_eq:
  "standardize_category cell =
     (case cell of
        None \<Rightarrow> ''Unknown''
      | Some c \<Rightarrow>
          if lower (strip c) = ''electronics'' then ''Electronics''
          else if lower (strip c) = ''sports'' then ''Sports''
          else if lower (strip c) = ''office supplies'' \<or> lower (strip c) = ''office_supplies''
            then ''Office Supplies''
          else title (strip c))"
  by (simp add: standardize_category_def category_mapping_def Let_def lower_not_shouting
        split: option.split)

lemma clean_products_data_eq:
  "clean_products_data df =
     filter (\<lambda>r. case price r of None \<Rightarrow> False | Some p \<Rightarrow> p > 0)
       (map (\<lambda>r. r\<lparr>category := Some (standardize_category (category r)),
                     product_name := fillna ''Unknown Product'' (product_name r)\<rparr>) df)"
  by (simp add: clean_products_data_def Let_def comp_def)

text \<open>
  C5, as the claim states it, fails: a product row whose category is missing leaves the
  cleaner with the category \<open>Unknown\<close>, a placeholder. (The value is also stripped of
  surrounding white space before it is looked up or title-cased, so \<open>" gadgets"\<close> becomes
  \<open>"Gadgets"\<close>, which is not its title-cased form.)
\<close>

theorem missing_category_gets_placeholder:
  "map category
     (clean_products_data
        [\<lparr>product_id = 7, product_name = Some ''Lamp'', category = None, price = Some 5\<rparr>])
     = [Some ''Unknown'']
   \<and> standardize_category (Some '' gadgets'') = ''Gadgets''
   \<and> title '' gadgets'' = '' Gadgets''"
  by (simp add: clean_products_data_eq standardize_category_eq strip_def lower_def title_def
        char_defs)

text \<open>
  C5, amended. A missing category becomes \<open>Unknown\<close>. Any other value is first stripped
  of surrounding white space; if its lower-case form is \<open>electronics\<close>, \<open>sports\<close>,
  \<open>office supplies\<close> or \<open>office_supplies\<close> it becomes the canonical spelling, otherwise it is
  title-cased. So \<open>ELECTRONICS\<close>, \<open>electronics\<close> and \<open>Electronics\<close> all become
  \<open>Electronics\<close> and \<open>gadgets\<close> becomes \<open>Gadgets\<close>. The product cleaner writes this value
  into the category of every row and defaults a missing product name to
  \<open>Unknown Product\<close>.
\<close>

theorem category_normalization:
  "standardize_category cell =
     (case cell of
        None \<Rightarrow> ''Unknown''
      | Some c \<Rightarrow>
          if lower (strip c) = ''electronics'' then ''Electronics''
          else if lower (strip c) = ''sports'' then ''Sports''
          else if lower (strip c) = ''office supplies'' \<or> lower (strip c) = ''office_supplies''
            then ''Office Supplies''
          else title (strip c))
   \<and> standardize_category (Some ''ELECTRONICS'') = ''Electronics''
   \<and> standardize_category (Some ''electronics'') = ''Electronics''
   \<and> standardize_category (Some ''Electronics'') = ''Electronics''
   \<and> standardize_category (Some ''gadgets'') = ''Gadgets''
   \<and> map (\<lambda>r. (product_name r, category r)) (clean_products_data df) =
       map (\<lambda>r. (fillna ''Unknown Product'' (product_name r),
                  Some (standardize_category (category r))))
         (filter (\<lambda>r. case price r of None \<Rightarrow> False | Some p \<Rightarrow> p > 0) df)"
proof -
  have ex: "standardize_category (Some ''ELECTRONICS'') = ''Electronics''"
    "standardize_category (Some ''electronics'') = ''Electronics''"
    "standardize_category (Some ''Electronics'') = ''Electronics''"
    "standardize_category (Some ''gadgets'') = ''Gadgets''"
    by (simp_all add: standardize_category_eq strip_def lower_def title_def char_defs)
  have rows: "map (\<lambda>r. (product_name r, category r)) (clean_products_data df) =
       map (\<lambda>r. (fillna ''Unknown Product'' (product_name r),
                  Some (standardize_category (category r))))
         (filter (\<lambda>r. case price r of None \<Rightarrow> False | Some p \<Rightarrow> p > 0) df)"
    unfolding clean_products_data_eq by (induction df) auto
  show ?thesis
    using standardize_category_eq [of cell] ex rows by (intro conjI)
qed

subsection \<open>The revenue aggregate\<close>


















subsection \<open>What the load leaves of the schema\<close>

lemma load_customers_eq:
  "load_customers db customers_df =
     Inr (db\<lparr>customers := Some \<lparr>declared = False, table_rows = customers_df\<rparr>\<rparr>)"
  by (simp add: load_customers_def to_sql_def split: option.split)



text \<open>
  C3: the code at the failing input. Two customers share an email address. Appended to
  the customers table that \<open>create_schema\<close> declares, the rows are refused; \<open>load_customers\<close>
  replaces that table by one without constraints and stores both rows.
\<close>

theorem load_drops_declared_constraints:
  "to_sql customers_constraints
     [\<lparr>customer_id = 1, first_name = Some ''Ann'', last_name = Some ''Lee'',
       email = Some ''ann@example.com'', registration_date = Some (Date 2023 1 15)\<rparr>,
      \<lparr>customer_id = 2, first_name = Some ''Bob'', last_name = Some ''Ray'',
       email = Some ''ann@example.com'', registration_date = Some (Date 2023 2 20)\<rparr>]
     Append (customers (create_schema no_database)) = Inl IntegrityError
   \<and> load_customers (create_schema no_database)
     [\<lparr>customer_id = 1, first_name = Some ''Ann'', last_name = Some ''Lee'',
       email = Some ''ann@example.com'', registration_date = Some (Date 2023 1 15)\<rparr>,
      \<lparr>customer_id = 2, first_name = Some ''Bob'', last_name = Some ''Ray'',
       email = Some ''ann@example.com'', registration_date = Some (Date 2023 2 20)\<rparr>]
   = Inr ((create_schema no_database)
       \<lparr>customers := Some \<lparr>declared = False, table_rows =
     [\<lparr>customer_id = 1, first_name = Some ''Ann'', last_name = Some ''Lee'',
       email = Some ''ann@example.com'', registration_date = Some (Date 2023 1 15)\<rparr>,
      \<lparr>customer_id = 2, first_name = Some ''Bob'', last_name = Some ''Ray'',
       email = Some ''ann@example.com'', registration_date = Some (Date 2023 2 20)\<rparr>]\<rparr>\<rparr>)"
  by (simp add: load_customers_eq to_sql_def create_schema_def create_table_if_not_exists_def
       no_database_def customers_constraints_def)





subsection \<open>Duplicate transactions\<close>









subsection \<open>The matcher decides the language\<close>

lemma nullable_lang: "nullable r \<longleftrightarrow> [] \<in> lang r"
  by (induction r) (auto intro: star_empty)

lemma star_head:
  assumes "w \<in> star A" and "w = c # x"
  shows "\<exists>u v. x = u @ v \<and> c # u \<in> A \<and> v \<in> star A"
  using assms
proof (induction arbitrary: x rule: star.induct)
  case star_empty
  then show ?case by simp
next
  case (star_more u v)
  show ?case
  proof (cases u)
    case Nil
    with star_more show ?thesis by simp
  next
    case (Cons a u')
    with star_more.prems have "a = c" and "x = u' @ v" by simp_all
    with Cons star_more.hyps show ?thesis by blast
  qed
qed

lemma deriv_lang: "w \<in> lang (deriv c r) \<longleftrightarrow> c # w \<in> lang r"
proof (induction r arbitrary: w)
  case (Seq r s)
  show ?case
  proof
    assume "w \<in> lang (deriv c (Seq r s))"
    then consider u v where "w = u @ v" "u \<in> lang (deriv c r)" "v \<in> lang s"
      | "nullable r" "w \<in> lang (deriv c s)"
      by (auto split: if_splits)
    then show "c # w \<in> lang (Seq r s)"
    proof cases
      case 1
      then have "c # u \<in> lang r" using Seq.IH(1) by simp
      with 1 have "(c # u) @ v \<in> lang (Seq r s)" by (simp del: append_Cons) blast
      with 1 show ?thesis by simp
    next
      case 2
      then have "[] \<in> lang r" "c # w \<in> lang s"
        using Seq.IH(2) by (simp_all add: nullable_lang)
      then have "[] @ (c # w) \<in> lang (Seq r s)" by (simp del: append_Nil) blast
      then show ?thesis by simp
    qed
  next
    assume "c # w \<in> lang (Seq r s)"
    then obtain u v where uv: "c # w = u @ v" "u \<in> lang r" "v \<in> lang s" by auto
    show "w \<in> lang (deriv c (Seq r s))"
    proof (cases u)
      case Nil
      with uv have "nullable r" "w \<in> lang (deriv c s)"
        using Seq.IH(2) by (simp_all add: nullable_lang)
      then show ?thesis by simp
    next
      case (Cons a u')
      with uv have "w = u' @ v" "u' \<in> lang (deriv c r)"
        using Seq.IH(1) by simp_all
      with uv show ?thesis by auto
    qed
  qed
next
  case (Star r)
  show ?case
  proof
    assume "w \<in> lang (deriv c (Star r))"
    then obtain u v where "w = u @ v" "c # u \<in> lang r" "v \<in> star (lang r)"
      using Star.IH by auto
    then have "(c # u) @ v \<in> star (lang r)" by (intro star_more)
    with \<open>w = u @ v\<close> show "c # w \<in> lang (Star r)" by simp
  next
    assume "c # w \<in> lang (Star r)"
    then have "c # w \<in> star (lang r)" by simp
    from star_head [OF this refl]
    obtain u v where "w = u @ v" "c # u \<in> lang r" "v \<in> star (lang r)" by blast
    then show "w \<in> lang (deriv c (Star r))"
      using Star.IH by auto
  qed
qed auto

lemma matches_lang: "matches r s \<longleftrightarrow> s \<in> lang r"
  by (induction s arbitrary: r) (simp_all add: nullable_lang deriv_lang)

lemma lang_atom: "w \<in> lang (Atom p) \<longleftrightarrow> (\<exists>c. w = [c] \<and> p c)"
  by auto

lemma lang_seq: "w \<in> lang (Seq r s) \<longleftrightarrow> (\<exists>u v. w = u @ v \<and> u \<in> lang r \<and> v \<in> lang s)"
  by auto

lemma lang_alt: "w \<in> lang (Alt r s) \<longleftrightarrow> w \<in> lang r \<or> w \<in> lang s"
  by simp

lemma lang_star_atom: "w \<in> lang (Star (Atom p)) \<longleftrightarrow> list_all p w"
proof
  assume "w \<in> lang (Star (Atom p))"
  then have "w \<in> star (lang (Atom p))" by simp
  then show "list_all p w" by (induction rule: star.induct) auto
next
  assume "list_all p w"
  then have "w \<in> star (lang (Atom p))"
  proof (induction w)
    case Nil
    show ?case by (rule star_empty)
  next
    case (Cons c w)
    then have "[c] \<in> lang (Atom p)" "w \<in> star (lang (Atom p))" by simp_all
    then have "[c] @ w \<in> star (lang (Atom p))" by (rule star_more)
    then show ?case by simp
  qed
  then show "w \<in> lang (Star (Atom p))" by simp
qed

lemma lang_atom_seq:
  "w \<in> lang (Seq (Atom p) r) \<longleftrightarrow> (\<exists>c v. w = c # v \<and> p c \<and> v \<in> lang r)"
proof
  assume "w \<in> lang (Seq (Atom p) r)"
  then obtain u v where "w = u @ v" and "u \<in> lang (Atom p)" and "v \<in> lang r"
    unfolding lang_seq by blast
  moreover from \<open>u \<in> lang (Atom p)\<close> obtain c where "u = [c]" and "p c"
    unfolding lang_atom by blast
  ultimately show "\<exists>c v. w = c # v \<and> p c \<and> v \<in> lang r" by simp
next
  assume "\<exists>c v. w = c # v \<and> p c \<and> v \<in> lang r"
  then obtain c v where "w = [c] @ v" and "p c" and "v \<in> lang r" by auto
  moreover from \<open>p c\<close> have "[c] \<in> lang (Atom p)" unfolding lang_atom by blast
  ultimately show "w \<in> lang (Seq (Atom p) r)" unfolding lang_seq by blast
qed

lemma lang_plus_atom: "w \<in> lang (Plus (Atom p)) \<longleftrightarrow> w \<noteq> [] \<and> list_all p w"
proof -
  have "w \<in> lang (Plus (Atom p)) \<longleftrightarrow> (\<exists>c v. w = c # v \<and> p c \<and> list_all p v)"
    unfolding Plus_def lang_atom_seq lang_star_atom ..
  also have "\<dots> \<longleftrightarrow> w \<noteq> [] \<and> list_all p w"
    by (cases w) auto
  finally show ?thesis .
qed

lemma lang_two_or_more:
  "w \<in> lang (Two_or_more (Atom p)) \<longleftrightarrow> 2 \<le> length w \<and> list_all p w"
proof -
  have "w \<in> lang (Two_or_more (Atom p)) \<longleftrightarrow>
          (\<exists>c v. w = c # v \<and> p c \<and> (\<exists>c' v'. v = c' # v' \<and> p c' \<and> list_all p v'))"
    unfolding Two_or_more_def lang_atom_seq lang_star_atom ..
  also have "\<dots> \<longleftrightarrow> 2 \<le> length w \<and> list_all p w"
  proof (cases w)
    case Nil
    then show ?thesis by simp
  next
    case (Cons a w')
    then show ?thesis by (cases w') auto
  qed
  finally show ?thesis .
qed

lemma lang_chr: "w \<in> lang (Chr c) \<longleftrightarrow> w = [c]"
  by (auto simp: Chr_def)

lemma lang_dollar: "w \<in> lang Dollar \<longleftrightarrow> w = [] \<or> w = [CHR 0x0A]"
  by (auto simp: Dollar_def Opt_def Chr_def)

lemma seqI: "u \<in> lang r \<Longrightarrow> v \<in> lang s \<Longrightarrow> u @ v \<in> lang (Seq r s)"
  unfolding lang_seq by blast

lemma seqE:
  assumes "w \<in> lang (Seq r s)"
  obtains u v where "w = u @ v" and "u \<in> lang r" and "v \<in> lang s"
  using assms unfolding lang_seq by blast

lemma email_pattern_parts:
  "s \<in> lang email_pattern \<longleftrightarrow>
     (\<exists>l d t e. s = l @ ''@'' @ d @ ''.'' @ t @ e
        \<and> l \<noteq> [] \<and> list_all local_char l \<and> d \<noteq> [] \<and> list_all domain_char d
        \<and> 2 \<le> length t \<and> list_all is_alpha t \<and> (e = [] \<or> e = [CHR 0x0A]))"
proof
  assume "s \<in> lang email_pattern"
  then obtain l a d p t e where
    "s = l @ a @ d @ p @ t @ e" and
    "l \<in> lang (Plus (Atom local_char))" and "a \<in> lang (Chr CHR ''@'')" and
    "d \<in> lang (Plus (Atom domain_char))" and "p \<in> lang (Chr CHR ''.'')" and
    "t \<in> lang (Two_or_more (Atom is_alpha))" and "e \<in> lang Dollar"
    unfolding email_pattern_def by (elim seqE) blast
  then show "\<exists>l d t e. s = l @ ''@'' @ d @ ''.'' @ t @ e
        \<and> l \<noteq> [] \<and> list_all local_char l \<and> d \<noteq> [] \<and> list_all domain_char d
        \<and> 2 \<le> length t \<and> list_all is_alpha t \<and> (e = [] \<or> e = [CHR 0x0A])"
    unfolding lang_plus_atom lang_two_or_more lang_chr lang_dollar by blast
next
  assume "\<exists>l d t e. s = l @ ''@'' @ d @ ''.'' @ t @ e
        \<and> l \<noteq> [] \<and> list_all local_char l \<and> d \<noteq> [] \<and> list_all domain_char d
        \<and> 2 \<le> length t \<and> list_all is_alpha t \<and> (e = [] \<or> e = [CHR 0x0A])"
  then obtain l d t e where s: "s = l @ ''@'' @ d @ ''.'' @ t @ e"
    and l: "l \<in> lang (Plus (Atom local_char))"
    and d: "d \<in> lang (Plus (Atom domain_char))"
    and t: "t \<in> lang (Two_or_more (Atom is_alpha))"
    and e: "e \<in> lang Dollar"
    unfolding lang_plus_atom lang_two_or_more lang_dollar by blast
  have at: "''@'' \<in> lang (Chr CHR ''@'')" and dot: "''.'' \<in> lang (Chr CHR ''.'')"
    unfolding lang_chr by (rule refl)+
  show "s \<in> lang email_pattern"
    unfolding s email_pattern_def by (intro seqI l at d dot t e)
qed

lemma lang_email_pattern:
  "s \<in> lang email_pattern \<longleftrightarrow>
     address_shape s \<or> (\<exists>t. s = t @ [CHR 0x0A] \<and> address_shape t)"
proof
  assume "s \<in> lang email_pattern"
  then obtain l d t e where
    s: "s = l @ ''@'' @ d @ ''.'' @ t @ e" and
    parts: "l \<noteq> []" "list_all local_char l" "d \<noteq> []" "list_all domain_char d"
      "2 \<le> length t" "list_all is_alpha t" and
    e: "e = [] \<or> e = [CHR 0x0A]"
    unfolding email_pattern_parts by blast
  from parts have shape: "address_shape (l @ ''@'' @ d @ ''.'' @ t)"
    unfolding address_shape_def by blast
  from e show "address_shape s \<or> (\<exists>t. s = t @ [CHR 0x0A] \<and> address_shape t)"
  proof
    assume "e = []"
    with s shape show ?thesis by simp
  next
    assume "e = [CHR 0x0A]"
    with s have "s = (l @ ''@'' @ d @ ''.'' @ t) @ [CHR 0x0A]" by simp
    with shape show ?thesis by blast
  qed
next
  assume "address_shape s \<or> (\<exists>t. s = t @ [CHR 0x0A] \<and> address_shape t)"
  then obtain u e where s: "s = u @ e" and u: "address_shape u"
    and e: "e = [] \<or> e = [CHR 0x0A]"
  proof
    assume "address_shape s"
    then show thesis by (intro that [of s "[]"]) simp_all
  next
    assume "\<exists>t. s = t @ [CHR 0x0A] \<and> address_shape t"
    then obtain t where "s = t @ [CHR 0x0A]" and "address_shape t" by blast
    then show thesis by (intro that [of t "[CHR 0x0A]"]) simp_all
  qed
  from u obtain l d t where
    u': "u = l @ ''@'' @ d @ ''.'' @ t" and parts: "l \<noteq> []" "list_all local_char l" "d \<noteq> []"
    "list_all domain_char d" "2 \<le> length t" "list_all is_alpha t"
    unfolding address_shape_def by blast
  have "s = l @ ''@'' @ d @ ''.'' @ t @ e"
    unfolding s u' by simp
  with parts e show "s \<in> lang email_pattern"
    unfolding email_pattern_parts by blast
qed

subsection \<open>The email validator\<close>

lemma validate_email_lang:
  "validate_email v \<longleftrightarrow> (\<exists>s. v = Some s \<and> s \<noteq> [] \<and> s \<in> lang email_pattern)"
  by (cases v) (simp_all add: validate_email_def matches_lang)

lemma address_shape_last: "address_shape s \<Longrightarrow> is_alpha (last s)"
proof -
  assume "address_shape s"
  then obtain l d t where s: "s = l @ ''@'' @ d @ ''.'' @ t"
    and t: "2 \<le> length t" "list_all is_alpha t"
    unfolding address_shape_def by blast
  from t have "t \<noteq> []" by auto
  with s have "last s = last t" by simp
  moreover from \<open>t \<noteq> []\<close> t have "is_alpha (last t)" by (simp add: list_all_iff)
  ultimately show ?thesis by simp
qed

lemma address_shape_at: "address_shape s \<Longrightarrow> CHR ''@'' \<in> set s"
  unfolding address_shape_def by auto

text \<open>
  C7: the code at the failing input. The text \<open>a@b.co\<close> followed by a newline does not
  have the shape \<open>local@domain.tld\<close> (it does not end in a letter), and the validator
  accepts it, because \<open>$\<close> also matches just before a newline that ends the text. The
  date validator rejects a date followed by a newline.
\<close>

theorem trailing_newline_accepted:
  "validate_email (Some (''a@b.co'' @ [CHR 0x0A]))
   \<and> \<not> address_shape (''a@b.co'' @ [CHR 0x0A])
   \<and> \<not> validate_date (Some (''2023-01-05'' @ [CHR 0x0A]))"
proof (intro conjI)
  show "validate_email (Some (''a@b.co'' @ [CHR 0x0A]))"
    by (simp add: validate_email_def regex_defs char_defs)
  show "\<not> address_shape (''a@b.co'' @ [CHR 0x0A])"
  proof
    assume "address_shape (''a@b.co'' @ [CHR 0x0A])"
    then have "is_alpha (last (''a@b.co'' @ [CHR 0x0A]))" by (rule address_shape_last)
    then show False by (simp add: char_defs)
  qed
  show "\<not> validate_date (Some (''2023-01-05'' @ [CHR 0x0A]))"
    by (simp add: validator_defs regex_defs char_defs)
qed

text \<open>
  What the email validator decides. It returns true exactly for a text that has the shape
  \<open>local@domain.tld\<close> (one or more characters of \<open>[A-Za-z0-9._%+-]\<close>, an \<open>@\<close>, one or more
  characters of \<open>[A-Za-z0-9.-]\<close>, a dot, two or more letters), or that is such a text
  followed by one newline. It returns false for a missing value, for the empty text and
  for every text without \<open>@\<close>; it returns true for every text of the shape, such as
  \<open>a@b.co\<close>.
\<close>

theorem email_validator_accepts:
  "(validate_email v \<longleftrightarrow>
      (\<exists>s. v = Some s \<and> (address_shape s \<or> (\<exists>t. s = t @ [CHR 0x0A] \<and> address_shape t))))
   \<and> \<not> validate_email None
   \<and> \<not> validate_email (Some [])
   \<and> (CHR ''@'' \<notin> set s \<longrightarrow> \<not> validate_email (Some s))
   \<and> (address_shape s \<longrightarrow> validate_email (Some s))
   \<and> validate_email (Some ''a@b.co'')"
proof -
  have nonempty: "s \<noteq> []" if "s \<in> lang email_pattern" for s
    using that address_shape_at unfolding lang_email_pattern by fastforce
  have main: "validate_email v \<longleftrightarrow>
      (\<exists>s. v = Some s \<and> (address_shape s \<or> (\<exists>t. s = t @ [CHR 0x0A] \<and> address_shape t)))" for v
    unfolding validate_email_lang using nonempty lang_email_pattern by blast
  have none: "\<not> validate_email None" and empty: "\<not> validate_email (Some [])"
    by (simp_all add: validate_email_def)
  have no_at: "CHR ''@'' \<notin> set s \<longrightarrow> \<not> validate_email (Some s)"
    unfolding main using address_shape_at by fastforce
  have shape: "address_shape s \<longrightarrow> validate_email (Some s)"
    unfolding main by blast
  have ex: "validate_email (Some ''a@b.co'')"
    by (simp add: validate_email_def regex_defs char_defs)
  from main none empty no_at shape ex show ?thesis by (intro conjI)
qed

theorem email_validator_accepts_witness:
  "CHR ''@'' \<notin> set ''john.example.com'' \<and> \<not> validate_email (Some ''john.example.com'')
   \<and> validate_email (Some ''a@b.co'')"
proof -
  have no_at: "CHR ''@'' \<notin> set ''john.example.com''" by simp
  from email_validator_accepts [of "Some ''a@b.co''" "''john.example.com''"] no_at
  show ?thesis by blast
qed

subsection \<open>The date validator\<close>

lemma digit_cases:
  "is_digit c \<longleftrightarrow>
     c = CHR ''0'' \<or> c = CHR ''1'' \<or> c = CHR ''2'' \<or> c = CHR ''3'' \<or> c = CHR ''4'' \<or>
     c = CHR ''5'' \<or> c = CHR ''6'' \<or> c = CHR ''7'' \<or> c = CHR ''8'' \<or> c = CHR ''9''"
  by (simp add: is_digit_def digits_def)

lemma digit_val_simps:
  "digit_val CHR ''0'' = 0" "digit_val CHR ''1'' = 1" "digit_val CHR ''2'' = 2"
  "digit_val CHR ''3'' = 3" "digit_val CHR ''4'' = 4" "digit_val CHR ''5'' = 5"
  "digit_val CHR ''6'' = 6" "digit_val CHR ''7'' = 7" "digit_val CHR ''8'' = 8"
  "digit_val CHR ''9'' = 9"
  by (simp_all add: digit_val_def digits_def)

lemma digit_val_le: "is_digit c \<Longrightarrow> digit_val c \<le> 9"
  by (auto simp: digit_cases digit_val_simps)

lemma nonzero_digit_iff: "nonzero_digit c \<longleftrightarrow> is_digit c \<and> 1 \<le> digit_val c"
  by (auto simp: nonzero_digit_def digit_cases digit_val_simps)

lemma digit_eq_iff:
  "c = CHR ''0'' \<longleftrightarrow> is_digit c \<and> digit_val c = 0"
  "c = CHR ''1'' \<longleftrightarrow> is_digit c \<and> digit_val c = 1"
  "c = CHR ''3'' \<longleftrightarrow> is_digit c \<and> digit_val c = 3"
  by (auto simp: digit_cases digit_val_simps)

lemma digit_range_iff:
  "c \<in> set ''012'' \<longleftrightarrow> is_digit c \<and> digit_val c \<le> 2"
  "c \<in> set ''01'' \<longleftrightarrow> is_digit c \<and> digit_val c \<le> 1"
  "c \<in> set ''12'' \<longleftrightarrow> is_digit c \<and> 1 \<le> digit_val c \<and> digit_val c \<le> 2"
  by (auto simp: digit_cases digit_val_simps)

lemma digit_not_dash: "is_digit c \<Longrightarrow> c \<noteq> CHR ''-''"
  by (auto simp: digit_cases)

lemma digit_not_space: "is_digit c \<Longrightarrow> \<not> is_space c"
  by (auto simp: digit_cases is_space_def)

lemma number_simps:
  "number [] = 0" "number [a] = digit_val a" "number [a, b] = 10 * digit_val a + digit_val b"
  by (simp_all add: number_def)

lemma lang_chr_seq: "w \<in> lang (Seq (Chr c) r) \<longleftrightarrow> (\<exists>v. w = c # v \<and> v \<in> lang r)"
  unfolding Chr_def lang_atom_seq by blast

lemma lang_year_pattern: "w \<in> lang year_pattern \<longleftrightarrow> length w = 4 \<and> list_all is_digit w"
proof -
  have "w \<in> lang year_pattern \<longleftrightarrow>
          (\<exists>a b c d. w = [a, b, c, d] \<and> is_digit a \<and> is_digit b \<and> is_digit c \<and> is_digit d)"
    unfolding year_pattern_def lang_atom_seq lang_atom by blast
  also have "\<dots> \<longleftrightarrow> length w = 4 \<and> list_all is_digit w"
  proof
    assume "\<exists>a b c d. w = [a, b, c, d] \<and> is_digit a \<and> is_digit b \<and> is_digit c \<and> is_digit d"
    then show "length w = 4 \<and> list_all is_digit w" by auto
  next
    assume w: "length w = 4 \<and> list_all is_digit w"
    then have "length w = Suc (Suc (Suc (Suc 0)))" by simp
    then obtain a b c d where "w = [a, b, c, d]"
      by (auto simp: length_Suc_conv)
    with w show "\<exists>a b c d. w = [a, b, c, d] \<and> is_digit a \<and> is_digit b \<and> is_digit c \<and> is_digit d"
      by simp
  qed
  finally show ?thesis .
qed

lemma lang_month_pattern_cases:
  "w \<in> lang month_pattern \<longleftrightarrow>
     (\<exists>b. w = [CHR ''1'', b] \<and> b \<in> set ''012'')
     \<or> (\<exists>b. w = [CHR ''0'', b] \<and> nonzero_digit b)
     \<or> (\<exists>c. w = [c] \<and> nonzero_digit c)"
  unfolding month_pattern_def lang_alt lang_chr_seq lang_atom by blast

lemma lang_day_pattern_cases:
  "w \<in> lang day_pattern \<longleftrightarrow>
     (\<exists>b. w = [CHR ''3'', b] \<and> b \<in> set ''01'')
     \<or> (\<exists>a b. w = [a, b] \<and> a \<in> set ''12'' \<and> is_digit b)
     \<or> (\<exists>b. w = [CHR ''0'', b] \<and> nonzero_digit b)
     \<or> (\<exists>c. w = [c] \<and> nonzero_digit c)
     \<or> (\<exists>c. w = [CHR '' '', c] \<and> nonzero_digit c)"
proof -
  have thirties: "w \<in> lang (Seq (Chr CHR ''3'') (Atom (\<lambda>c. c \<in> set ''01''))) \<longleftrightarrow>
      (\<exists>b. w = [CHR ''3'', b] \<and> b \<in> set ''01'')"
    unfolding lang_chr_seq lang_atom by blast
  have teens: "w \<in> lang (Seq (Atom (\<lambda>c. c \<in> set ''12'')) (Atom is_digit)) \<longleftrightarrow>
      (\<exists>a b. w = [a, b] \<and> a \<in> set ''12'' \<and> is_digit b)"
    unfolding lang_atom_seq lang_atom by blast
  have padded: "w \<in> lang (Seq (Chr CHR ''0'') (Atom nonzero_digit)) \<longleftrightarrow>
      (\<exists>b. w = [CHR ''0'', b] \<and> nonzero_digit b)"
    unfolding lang_chr_seq lang_atom by blast
  have single: "w \<in> lang (Atom nonzero_digit) \<longleftrightarrow> (\<exists>c. w = [c] \<and> nonzero_digit c)"
    by (rule lang_atom)
  have blank: "w \<in> lang (Seq (Chr CHR '' '') (Atom nonzero_digit)) \<longleftrightarrow>
      (\<exists>c. w = [CHR '' '', c] \<and> nonzero_digit c)"
    unfolding lang_chr_seq lang_atom by blast
  show ?thesis
    unfolding day_pattern_def lang_alt thirties teens padded single blank by (rule refl)
qed

lemma lang_month_pattern: "w \<in> lang month_pattern \<longleftrightarrow> month_field w"
proof
  assume "w \<in> lang month_pattern"
  then consider b where "w = [CHR ''1'', b]" "b \<in> set ''012''"
    | b where "w = [CHR ''0'', b]" "nonzero_digit b"
    | c where "w = [c]" "nonzero_digit c"
    unfolding lang_month_pattern_cases by blast
  then show "month_field w"
  proof cases
    case 1
    then have "is_digit b" "digit_val b \<le> 2" by (simp_all only: digit_range_iff)
    with 1 show ?thesis
      by (simp add: month_field_def number_simps digit_val_simps digit_cases)
  next
    case 2
    then have "is_digit b" "1 \<le> digit_val b" by (simp_all only: nonzero_digit_iff)
    with 2 digit_val_le [of b] show ?thesis
      by (simp add: month_field_def number_simps digit_val_simps digit_cases)
  next
    case 3
    then have "is_digit c" "1 \<le> digit_val c" by (simp_all only: nonzero_digit_iff)
    with 3 digit_val_le [of c] show ?thesis
      by (simp add: month_field_def number_simps)
  qed
next
  assume m: "month_field w"
  then have len: "length w = 1 \<or> length w = 2" and dig: "list_all is_digit w"
    and lo: "1 \<le> number w" and hi: "number w \<le> 12"
    by (simp_all add: month_field_def)
  from len show "w \<in> lang month_pattern"
  proof
    assume "length w = 1"
    then obtain c where w: "w = [c]" by (cases w) auto
    with dig lo have "nonzero_digit c" by (simp add: nonzero_digit_iff number_simps)
    with w show ?thesis unfolding lang_month_pattern_cases by blast
  next
    assume "length w = 2"
    then obtain a b where w: "w = [a, b]"
      by (auto simp: length_Suc_conv numeral_2_eq_2)
    with dig have da: "is_digit a" and db: "is_digit b" by simp_all
    from w lo hi have range: "1 \<le> 10 * digit_val a + digit_val b" "10 * digit_val a + digit_val b \<le> 12"
      by (simp_all add: number_simps)
    from digit_val_le [OF db] range
    consider "digit_val a = 1" "digit_val b \<le> 2" | "digit_val a = 0" "1 \<le> digit_val b"
      by linarith
    then show ?thesis
    proof cases
      case 1
      with da db have "a = CHR ''1''" "b \<in> set ''012''"
        by (simp_all only: digit_eq_iff digit_range_iff simp_thms)
      with w show ?thesis unfolding lang_month_pattern_cases by blast
    next
      case 2
      with da db have "a = CHR ''0''" "nonzero_digit b"
        by (simp_all only: digit_eq_iff nonzero_digit_iff simp_thms)
      with w show ?thesis unfolding lang_month_pattern_cases by blast
    qed
  qed
qed

lemma day_patternI:
  "b \<in> set ''01'' \<Longrightarrow> [CHR ''3'', b] \<in> lang day_pattern"
  "a \<in> set ''12'' \<Longrightarrow> is_digit b \<Longrightarrow> [a, b] \<in> lang day_pattern"
  "nonzero_digit b \<Longrightarrow> [CHR ''0'', b] \<in> lang day_pattern"
  "nonzero_digit c \<Longrightarrow> [c] \<in> lang day_pattern"
  "nonzero_digit c \<Longrightarrow> [CHR '' '', c] \<in> lang day_pattern"
  unfolding lang_day_pattern_cases by simp_all

lemma lang_day_pattern: "w \<in> lang day_pattern \<longleftrightarrow> day_field w"
proof
  assume "w \<in> lang day_pattern"
  then have "(\<exists>b. w = [CHR ''3'', b] \<and> b \<in> set ''01'')
     \<or> (\<exists>a b. w = [a, b] \<and> a \<in> set ''12'' \<and> is_digit b)
     \<or> (\<exists>b. w = [CHR ''0'', b] \<and> nonzero_digit b)
     \<or> (\<exists>c. w = [c] \<and> nonzero_digit c)
     \<or> (\<exists>c. w = [CHR '' '', c] \<and> nonzero_digit c)"
    by (simp only: lang_day_pattern_cases)
  then show "day_field w"
  proof (elim disjE exE conjE)
    fix b assume w: "w = [CHR ''3'', b]" and b: "b \<in> set ''01''"
    from b have "is_digit b" "digit_val b \<le> 1" by (simp_all only: digit_range_iff)
    with w show "day_field w"
      by (simp add: day_field_def number_simps digit_val_simps digit_cases)
  next
    fix a b assume w: "w = [a, b]" and a: "a \<in> set ''12''" and b: "is_digit b"
    from a have "is_digit a" "1 \<le> digit_val a" "digit_val a \<le> 2"
      by (simp_all only: digit_range_iff)
    with w b digit_val_le [of b] show "day_field w"
      by (simp add: day_field_def number_simps)
  next
    fix b assume w: "w = [CHR ''0'', b]" and b: "nonzero_digit b"
    from b have "is_digit b" "1 \<le> digit_val b" by (simp_all only: nonzero_digit_iff)
    with w digit_val_le [of b] show "day_field w"
      by (simp add: day_field_def number_simps digit_val_simps digit_cases)
  next
    fix c assume w: "w = [c]" and c: "nonzero_digit c"
    from c have "is_digit c" "1 \<le> digit_val c" by (simp_all only: nonzero_digit_iff)
    with w digit_val_le [of c] show "day_field w"
      by (simp add: day_field_def number_simps)
  next
    fix c assume "w = [CHR '' '', c]" and "nonzero_digit c"
    then show "day_field w" by (simp add: day_field_def)
  qed
next
  assume "day_field w"
  then have "(list_all is_digit w \<and> (length w = 1 \<or> length w = 2) \<and> 1 \<le> number w \<and> number w \<le> 31)
      \<or> (\<exists>c. w = [CHR '' '', c] \<and> nonzero_digit c)"
    by (simp only: day_field_def)
  then show "w \<in> lang day_pattern"
  proof (elim disjE exE conjE)
    fix c assume "w = [CHR '' '', c]" and "nonzero_digit c"
    then show ?thesis by (simp only: day_patternI)
  next
    assume dig: "list_all is_digit w" and lo: "1 \<le> number w" and hi: "number w \<le> 31"
      and "length w = 1"
    then obtain c where w: "w = [c]" by (cases w) auto
    with dig lo have "nonzero_digit c" by (simp add: nonzero_digit_iff number_simps)
    with w show ?thesis by (simp only: day_patternI)
  next
    assume dig: "list_all is_digit w" and lo: "1 \<le> number w" and hi: "number w \<le> 31"
      and "length w = 2"
    then obtain a b where w: "w = [a, b]"
      by (auto simp: length_Suc_conv numeral_2_eq_2)
    with dig have da: "is_digit a" and db: "is_digit b" by simp_all
    from w lo hi have range: "1 \<le> 10 * digit_val a + digit_val b"
      "10 * digit_val a + digit_val b \<le> 31"
      by (simp_all add: number_simps)
    from digit_val_le [OF db] range
    have "(digit_val a = 3 \<and> digit_val b \<le> 1)
        \<or> (1 \<le> digit_val a \<and> digit_val a \<le> 2)
        \<or> (digit_val a = 0 \<and> 1 \<le> digit_val b)"
      by linarith
    then show ?thesis
    proof (elim disjE conjE)
      assume "digit_val a = 3" "digit_val b \<le> 1"
      with da db have "a = CHR ''3''" "b \<in> set ''01''"
        by (simp_all only: digit_eq_iff digit_range_iff simp_thms)
      with w show ?thesis by (simp only: day_patternI)
    next
      assume "1 \<le> digit_val a" "digit_val a \<le> 2"
      with da have "a \<in> set ''12''"
        by (simp only: digit_range_iff simp_thms)
      with w db show ?thesis by (simp only: day_patternI)
    next
      assume "digit_val a = 0" "1 \<le> digit_val b"
      with da db have "a = CHR ''0''" "nonzero_digit b"
        by (simp_all only: digit_eq_iff nonzero_digit_iff simp_thms)
      with w show ?thesis by (simp only: day_patternI)
    qed
  qed
qed

lemma strip_digits: "list_all is_digit w \<Longrightarrow> strip w = w"
proof -
  assume d: "list_all is_digit w"
  have keep: "dropWhile is_space u = u" if "list_all is_digit u" for u
    using that by (cases u) (simp_all add: digit_not_space)
  from d have "list_all is_digit (rev w)" by (simp add: list_all_iff)
  with d show ?thesis by (simp add: strip_def keep)
qed

lemma int_of_text_digits: "list_all is_digit w \<Longrightarrow> int_of_text w = number w"
  by (simp add: int_of_text_def number_def strip_digits)

lemma int_of_text_blank: "nonzero_digit c \<Longrightarrow> int_of_text [CHR '' '', c] = digit_val c"
proof -
  assume "nonzero_digit c"
  then have "\<not> is_space c" by (simp add: nonzero_digit_iff digit_not_space)
  then show ?thesis by (simp add: int_of_text_def strip_def is_space_def)
qed

lemma date_pattern_parts:
  "s \<in> lang date_pattern \<longleftrightarrow>
     (\<exists>y m d. s = y @ ''-'' @ m @ ''-'' @ d
        \<and> (length y = 4 \<and> list_all is_digit y) \<and> month_field m \<and> day_field d)"
proof
  assume "s \<in> lang date_pattern"
  then obtain y a m b d where
    "s = y @ a @ m @ b @ d" and
    "y \<in> lang year_pattern" and "a \<in> lang (Chr CHR ''-'')" and "m \<in> lang month_pattern" and
    "b \<in> lang (Chr CHR ''-'')" and "d \<in> lang day_pattern"
    unfolding date_pattern_def by (elim seqE) blast
  then show "\<exists>y m d. s = y @ ''-'' @ m @ ''-'' @ d
        \<and> (length y = 4 \<and> list_all is_digit y) \<and> month_field m \<and> day_field d"
    unfolding lang_year_pattern lang_month_pattern lang_day_pattern lang_chr by blast
next
  assume "\<exists>y m d. s = y @ ''-'' @ m @ ''-'' @ d
        \<and> (length y = 4 \<and> list_all is_digit y) \<and> month_field m \<and> day_field d"
  then obtain y m d where s: "s = y @ ''-'' @ m @ ''-'' @ d"
    and y: "y \<in> lang year_pattern" and m: "m \<in> lang month_pattern"
    and d: "d \<in> lang day_pattern"
    unfolding lang_year_pattern lang_month_pattern lang_day_pattern by blast
  have dash: "''-'' \<in> lang (Chr CHR ''-'')"
    unfolding lang_chr by (rule refl)
  show "s \<in> lang date_pattern"
    unfolding s date_pattern_def by (intro seqI y dash m d)
qed



lemma date_fields:
  assumes s: "s = y @ ''-'' @ m @ ''-'' @ d" and y: "length y = 4" and m: "list_all is_digit m"
  shows "take 4 s = y"
    and "takeWhile (\<lambda>c. c \<noteq> CHR ''-'') (drop 5 s) = m"
    and "drop 1 (dropWhile (\<lambda>c. c \<noteq> CHR ''-'') (drop 5 s)) = d"
proof -
  from m have no_dash: "\<And>c. c \<in> set m \<Longrightarrow> c \<noteq> CHR ''-''"
    by (auto simp: list_all_iff digit_not_dash)
  from s y show "take 4 s = y" by simp
  from s y have rest: "drop 5 s = m @ CHR ''-'' # d" by simp
  from no_dash show "takeWhile (\<lambda>c. c \<noteq> CHR ''-'') (drop 5 s) = m"
    unfolding rest by (simp add: takeWhile_append2)
  from no_dash show "drop 1 (dropWhile (\<lambda>c. c \<noteq> CHR ''-'') (drop 5 s)) = d"
    unfolding rest by (simp add: dropWhile_append2)
qed

lemma strptime_ymd_of_parts:
  assumes s: "s = y @ ''-'' @ m @ ''-'' @ d" and y: "length y = 4" "list_all is_digit y"
    and m: "month_field m" and d: "day_field d"
  shows "strptime_ymd s =
     (if 1 \<le> number y \<and> int_of_text d \<le> days_in_month (number y) (number m)
      then Some (Date (number y) (number m) (int_of_text d)) else None)"
proof -
  from m have md: "list_all is_digit m" by (simp add: month_field_def)
  from s y m d have "s \<in> lang date_pattern"
    unfolding date_pattern_parts by blast
  then have "matches date_pattern s" by (simp add: matches_lang)
  then show ?thesis
    unfolding strptime_ymd_def Let_def date_fields [OF s y(1) md]
    by (simp add: int_of_text_digits y md)
qed

lemma strptime_ymd_Some_iff: "(\<exists>day. strptime_ymd s = Some day) \<longleftrightarrow> strptime_date_text s"
proof
  assume "\<exists>day. strptime_ymd s = Some day"
  then have "matches date_pattern s"
    by (auto simp: strptime_ymd_def split: if_splits)
  then obtain y m d where s: "s = y @ ''-'' @ m @ ''-'' @ d"
    and y: "length y = 4" "list_all is_digit y" and m: "month_field m" and d: "day_field d"
    unfolding matches_lang date_pattern_parts by blast
  from \<open>\<exists>day. strptime_ymd s = Some day\<close>
  have "1 \<le> number y \<and> int_of_text d \<le> days_in_month (number y) (number m)"
    unfolding strptime_ymd_of_parts [OF s y m d] by (simp split: if_splits)
  with s y m d show "strptime_date_text s"
    unfolding strptime_date_text_def by blast
next
  assume "strptime_date_text s"
  then obtain y m d where s: "s = y @ ''-'' @ m @ ''-'' @ d"
    and y: "length y = 4" "list_all is_digit y" and m: "month_field m" and d: "day_field d"
    and ok: "1 \<le> number y" "int_of_text d \<le> days_in_month (number y) (number m)"
    unfolding strptime_date_text_def by blast
  show "\<exists>day. strptime_ymd s = Some day"
    unfolding strptime_ymd_of_parts [OF s y m d] using ok by simp
qed

lemma days_in_month_le: "days_in_month y m \<le> 31"
  by (simp add: days_in_month_def)

lemma validate_date_iff:
  "validate_date v \<longleftrightarrow> (\<exists>s. v = Some s \<and> strptime_date_text s)"
proof (cases v)
  case None
  then show ?thesis by (simp add: validate_date_def)
next
  case (Some s)
  have "s \<noteq> []" if "strptime_date_text s"
    using that unfolding strptime_date_text_def by auto
  then have "strptime_date_text s \<longleftrightarrow> s \<noteq> [] \<and> (\<exists>day. strptime_ymd s = Some day)"
    unfolding strptime_ymd_Some_iff by blast
  with Some show ?thesis
    by (simp add: validate_date_def split: option.split)
qed

lemma iso_date_text_accepted:
  assumes "iso_date_text s" and "1 \<le> number (take 4 s)"
  shows "strptime_date_text s"
proof -
  from assms(1) obtain y m d where s: "s = y @ ''-'' @ m @ ''-'' @ d"
    and len: "length y = 4" "length m = 2" "length d = 2"
    and dig: "list_all is_digit y" "list_all is_digit m" "list_all is_digit d"
    and mr: "1 \<le> number m" "number m \<le> 12"
    and dr: "1 \<le> number d" "number d \<le> days_in_month (number y) (number m)"
    unfolding iso_date_text_def by blast
  from date_fields(1) [OF s len(1) dig(2)] assms(2) have yr: "1 \<le> number y" by simp
  from len dig mr have m: "month_field m" by (simp add: month_field_def)
  from dr days_in_month_le [of "number y" "number m"] have "number d \<le> 31" by linarith
  with len dig dr have d: "day_field d" by (simp add: day_field_def)
  from dig dr have "int_of_text d \<le> days_in_month (number y) (number m)"
    by (simp add: int_of_text_digits)
  with s len dig yr m d show ?thesis
    unfolding strptime_date_text_def by blast
qed

lemma iso_date_text_length: "iso_date_text s \<Longrightarrow> length s = 10"
  unfolding iso_date_text_def by auto

lemma iso_date_textI:
  assumes "length y = 4" "length m = 2" "length d = 2"
    "list_all is_digit y" "list_all is_digit m" "list_all is_digit d"
    "1 \<le> number m" "number m \<le> 12"
    "1 \<le> number d" "number d \<le> days_in_month (number y) (number m)"
  shows "iso_date_text (y @ ''-'' @ m @ ''-'' @ d)"
  unfolding iso_date_text_def using assms by blast

text \<open>
  C6, as the claim states it, fails in both directions. The text \<open>2023-1-5\<close> has a
  one-digit month and day, so it is not of the form \<open>YYYY-MM-DD\<close>, and the validator
  accepts it; the text \<open>0000-01-01\<close> is of that form, and the validator rejects it, because
  the year of a \<open>date\<close> is at least 1.
\<close>

theorem single_digit_month_accepted:
  "validate_date (Some ''2023-1-5'') \<and> \<not> iso_date_text ''2023-1-5''
   \<and> iso_date_text ''0000-01-01'' \<and> \<not> validate_date (Some ''0000-01-01'')"
proof (intro conjI)
  show "validate_date (Some ''2023-1-5'')"
    by (simp add: validator_defs regex_defs char_defs)
  show "\<not> iso_date_text ''2023-1-5''"
    using iso_date_text_length [of "''2023-1-5''"] by auto
  have "iso_date_text (''0000'' @ ''-'' @ ''01'' @ ''-'' @ ''01'')"
    by (rule iso_date_textI)
       (simp_all add: number_def digit_val_def days_in_month_def is_digit_def digits_def)
  then show "iso_date_text ''0000-01-01''" by simp
  show "\<not> validate_date (Some ''0000-01-01'')"
    by (simp add: validator_defs regex_defs char_defs)
qed

lemma day_field_positive: "day_field d \<Longrightarrow> 1 \<le> int_of_text d"
  unfolding day_field_def
  by (auto simp: int_of_text_digits int_of_text_blank nonzero_digit_iff)

lemma accepted_is_calendar_date:
  assumes "validate_date (Some s)"
  shows "\<exists>dt. strptime_ymd s = Some dt
           \<and> 1 \<le> year dt \<and> 1 \<le> month dt \<and> month dt \<le> 12
           \<and> 1 \<le> day dt \<and> day dt \<le> days_in_month (year dt) (month dt)"
proof -
  from assms have "strptime_date_text s" by (simp add: validate_date_iff)
  then obtain y m d where s: "s = y @ ''-'' @ m @ ''-'' @ d"
    and y: "length y = 4" "list_all is_digit y" and m: "month_field m" and d: "day_field d"
    and ok: "1 \<le> number y" "int_of_text d \<le> days_in_month (number y) (number m)"
    unfolding strptime_date_text_def by blast
  from m have "1 \<le> number m" "number m \<le> 12" by (simp_all add: month_field_def)
  with ok day_field_positive [OF d] show ?thesis
    unfolding strptime_ymd_of_parts [OF s y m d] by simp
qed

text \<open>
  C6, amended. The date validator returns false for a missing value and for the empty
  text. It returns true exactly for a text \<open>Y-M-D\<close> in which \<open>Y\<close> is four digits that are not
  all zero, \<open>M\<close> is a month 1 to 12 written with one or two digits, and \<open>D\<close> is a day written
  with one or two digits, or as a blank and a digit, that the month of that year has. So
  every text of the form \<open>YYYY-MM-DD\<close> that names a day of a year from 0001 on is accepted,
  every accepted text reads as a day of the calendar, and \<open>2023-02-30\<close> is rejected.
\<close>

theorem date_validator_accepts:
  "(validate_date v \<longleftrightarrow> (\<exists>s. v = Some s \<and> strptime_date_text s))
   \<and> \<not> validate_date None
   \<and> \<not> validate_date (Some [])
   \<and> (iso_date_text s \<and> 1 \<le> number (take 4 s) \<longrightarrow> validate_date (Some s))
   \<and> (validate_date (Some s) \<longrightarrow>
        (\<exists>dt. strptime_ymd s = Some dt
           \<and> 1 \<le> year dt \<and> 1 \<le> month dt \<and> month dt \<le> 12
           \<and> 1 \<le> day dt \<and> day dt \<le> days_in_month (year dt) (month dt)))
   \<and> \<not> validate_date (Some ''2023-02-30'')
   \<and> \<not> validate_date (Some ''2024-02-30'')"
proof -
  have none: "\<not> validate_date None" and empty: "\<not> validate_date (Some [])"
    by (simp_all add: validate_date_def)
  have iso: "iso_date_text s \<and> 1 \<le> number (take 4 s) \<longrightarrow> validate_date (Some s)"
    using iso_date_text_accepted [of s] by (simp add: validate_date_iff)
  have cal: "validate_date (Some s) \<longrightarrow>
        (\<exists>dt. strptime_ymd s = Some dt
           \<and> 1 \<le> year dt \<and> 1 \<le> month dt \<and> month dt \<le> 12
           \<and> 1 \<le> day dt \<and> day dt \<le> days_in_month (year dt) (month dt))"
    using accepted_is_calendar_date [of s] by blast
  have ex: "\<not> validate_date (Some ''2023-02-30'')" "\<not> validate_date (Some ''2024-02-30'')"
    by (simp_all add: validator_defs regex_defs char_defs)
  from validate_date_iff [of v] none empty iso cal ex show ?thesis by (intro conjI)
qed

theorem date_validator_accepts_witness:
  "iso_date_text ''2024-02-29'' \<and> 1 \<le> number (take 4 ''2024-02-29'')
   \<and> validate_date (Some ''2024-02-29'')
   \<and> strptime_ymd ''2024-02-29'' = Some (Date 2024 2 29)"
proof -
  have "iso_date_text (''2024'' @ ''-'' @ ''02'' @ ''-'' @ ''29'')"
    by (rule iso_date_textI)
       (simp_all add: number_def digit_val_def days_in_month_def is_leap_def is_digit_def
          digits_def)
  then have iso: "iso_date_text ''2024-02-29''" by simp
  have yr: "1 \<le> number (take 4 ''2024-02-29'')"
    by (simp add: number_def digit_val_def digits_def)
  from date_validator_accepts [of "Some ''2024-02-29''" "''2024-02-29''"] iso yr
  have "validate_date (Some ''2024-02-29'')" by blast
  moreover have "strptime_ymd ''2024-02-29'' = Some (Date 2024 2 29)"
    by (simp add: validator_defs regex_defs char_defs)
  ultimately show ?thesis using iso yr by (intro conjI)
qed


end
